theory Spec2Isabelle
  imports Main
begin

section \<open>Strings and exceptions\<close>

text \<open>
  A JavaScript string is a sequence of UTF-16 code units. The model uses \<^typ>\<open>string\<close>,
  whose characters have eight bits: the code units 0 to 255 (Latin-1). The regular
  expressions and string functions of this program treat every code unit above that
  range like an ordinary letter that is neither white space, nor a line terminator,
  nor a word character (with the exception of the Unicode spaces and the two Unicode
  line separators, which are not representable here).
\<close>

text \<open>The three exception classes the program throws, each carrying its \<open>message\<close>.\<close>

datatype exn =
    BadRequestException string
  | UnsupportedMediaTypeException string
  | Error string

fun message :: "exn \<Rightarrow> string" where
  "message (BadRequestException m) = m"
| "message (UnsupportedMediaTypeException m) = m"
| "message (Error m) = m"

fun isBadRequest :: "exn \<Rightarrow> bool" where
  "isBadRequest (BadRequestException m) = True"
| "isBadRequest (UnsupportedMediaTypeException m) = False"
| "isBadRequest (Error m) = False"

text \<open>
  Truthiness of an optional string (\<open>if (userApiKey)\<close>, \<open>!videoId\<close>, \<open>content || ...\<close>):
  \<open>undefined\<close>, \<open>null\<close> and the empty string are falsy, every other string is truthy.
\<close>

fun truthy :: "string option \<Rightarrow> bool" where
  "truthy None = False"
| "truthy (Some s) = (s \<noteq> [])"

section \<open>Regular expressions\<close>

text \<open>
  The fragment of JavaScript regular expressions that the program's four patterns use,
  with the backtracking semantics of the language: \<open>run r s\<close> lists the states in which
  a match of \<open>r\<close> started in state \<open>s\<close> can end, in the order in which the backtracking
  matcher tries them (first alternative first, greedy quantifiers longest first). The
  head of the list is therefore the match that \<open>exec\<close> reports.
\<close>

datatype regex =
    Eps
  | Atom "char \<Rightarrow> bool"
  | Seq regex regex
  | Alt regex regex
  | Opt regex
  | Plus regex
  | Rep nat regex
  | Cap nat regex
  | Bol
  | Eol

text \<open>
  A matcher state: the index reached in the input, the input from there on, and the
  capture groups recorded so far (most recent first).
\<close>

record mstate =
  pos :: nat
  rest :: string
  caps :: "(nat \<times> string) list"

text \<open>
  \<open>r{n}\<close>: exactly \<open>n\<close> iterations. \<open>r*\<close> after the first iteration of \<open>r+\<close>: an
  iteration that consumes nothing is rejected (the empty check of RepeatMatcher), so
  the length of the remaining input bounds the number of iterations.
\<close>

primrec rep :: "nat \<Rightarrow> (mstate \<Rightarrow> mstate list) \<Rightarrow> mstate \<Rightarrow> mstate list" where
  "rep 0 f s = [s]"
| "rep (Suc n) f s = concat (map (rep n f) (f s))"

primrec star :: "nat \<Rightarrow> (mstate \<Rightarrow> mstate list) \<Rightarrow> mstate \<Rightarrow> mstate list" where
  "star 0 f s = [s]"
| "star (Suc n) f s =
     concat (map (star n f) (filter (\<lambda>t. pos t \<noteq> pos s) (f s))) @ [s]"

primrec run :: "regex \<Rightarrow> mstate \<Rightarrow> mstate list" where
  "run Eps = (\<lambda>s. [s])"
| "run (Atom p) = (\<lambda>s. case rest s of
       [] \<Rightarrow> []
     | c # cs \<Rightarrow> if p c then [s\<lparr>pos := Suc (pos s), rest := cs\<rparr>] else [])"
| "run (Seq a b) = (\<lambda>s. concat (map (run b) (run a s)))"
| "run (Alt a b) = (\<lambda>s. run a s @ run b s)"
| "run (Opt a) = (\<lambda>s. filter (\<lambda>t. pos t \<noteq> pos s) (run a s) @ [s])"
| "run (Plus a) = (\<lambda>s. concat (map (star (length (rest s)) (run a)) (run a s)))"
| "run (Rep n a) = rep n (run a)"
| "run (Cap i a) = (\<lambda>s.
     map (\<lambda>t. t\<lparr>caps := (i, take (pos t - pos s) (rest s)) # caps t\<rparr>) (run a s))"
| "run Bol = (\<lambda>s. if pos s = 0 then [s] else [])"
| "run Eol = (\<lambda>s. if rest s = [] then [s] else [])"

text \<open>
  \<open>RegExp.prototype.exec\<close> without the \<open>g\<close> and \<open>y\<close> flags: the start index runs from 0
  to the length of the input, and the first index with a match wins.
\<close>

fun exec_from :: "regex \<Rightarrow> nat \<Rightarrow> string \<Rightarrow> mstate option" where
  "exec_from r i [] =
     (case run r \<lparr>pos = i, rest = [], caps = []\<rparr> of [] \<Rightarrow> None | t # ts \<Rightarrow> Some t)"
| "exec_from r i (c # cs) =
     (case run r \<lparr>pos = i, rest = c # cs, caps = []\<rparr> of
        [] \<Rightarrow> exec_from r (Suc i) cs
      | t # ts \<Rightarrow> Some t)"

definition exec :: "regex \<Rightarrow> string \<Rightarrow> mstate option" where
  "exec r s = exec_from r 0 s"

text \<open>\<open>regex.test(s)\<close>, and \<open>s.match(regex)[k]\<close> (\<open>None\<close> for \<open>undefined\<close>).\<close>

definition test :: "regex \<Rightarrow> string \<Rightarrow> bool" where
  "test r s = (exec r s \<noteq> None)"

definition group :: "mstate \<Rightarrow> nat \<Rightarrow> string option" where
  "group m k = map_of (caps m) k"

text \<open>A sequence of literal characters, and the character classes of the patterns.\<close>

primrec lit :: "string \<Rightarrow> regex" where
  "lit [] = Eps"
| "lit (c # cs) = Seq (Atom (\<lambda>x. x = c)) (lit cs)"

definition chr :: "char \<Rightarrow> regex" where
  "chr c = Atom (\<lambda>x. x = c)"

text \<open>\<open>.\<close> matches every code unit but the line terminators.\<close>

definition isLineTerminator :: "char \<Rightarrow> bool" where
  "isLineTerminator c = (c = CHR 0x0A \<or> c = CHR 0x0D)"

definition dot :: regex where
  "dot = Atom (\<lambda>c. \<not> isLineTerminator c)"

text \<open>\<open>\w\<close> is \<open>[A-Za-z0-9_]\<close>; the class of the identifier patterns is \<open>[\w-]\<close>.\<close>

definition isWordChar :: "char \<Rightarrow> bool" where
  "isWordChar c = (let n = (of_char c :: nat) in
     (65 \<le> n \<and> n \<le> 90) \<or> (97 \<le> n \<and> n \<le> 122) \<or> (48 \<le> n \<and> n \<le> 57) \<or> n = 95)"

definition isIdChar :: "char \<Rightarrow> bool" where
  "isIdChar c = (isWordChar c \<or> c = CHR ''-'')"

section \<open>utils/summarization.util.ts\<close>

text \<open>
  \<^verbatim>\<open>/^(https?:\/\/)?(www\.)?(youtube\.com|youtu\.?be)\/.+/\<close>
\<close>

definition ytRegex :: regex where
  "ytRegex =
     Seq Bol
    (Seq (Opt (Cap 1 (Seq (lit ''http'') (Seq (Opt (chr CHR ''s'')) (lit ''://'')))))
    (Seq (Opt (Cap 2 (lit ''www.'')))
    (Seq (Cap 3 (Alt (lit ''youtube.com'')
                     (Seq (lit ''youtu'') (Seq (Opt (chr CHR ''.'')) (lit ''be'')))))
    (Seq (chr CHR ''/'')
         (Plus dot)))))"

definition isValidYouTubeUrl :: "string \<Rightarrow> bool" where
  "isValidYouTubeUrl url = test ytRegex url"

text \<open>
  Modelled from the spec: the enum declarations (\<open>enums/summarization-options.enum.ts\<close>)
  are not among the sources. The members are those the spec and the code name; the
  \<open>Other\<close> constructors stand for the members that neither names.
\<close>

datatype SummaryLength = SHORT | STANDARD | LONG

datatype SummaryFormat = NARRATIVE | BULLET | OtherFormat string

datatype SummarizationModel = OPENAI | OtherModel string

datatype SummarizationSpeed = SLOW | OtherSpeed string

text \<open>
  An options object, as \<open>SummarizationOptionsDto\<close> and \<open>SummarizationOptions\<close> both are
  at run time: each property is present with a value or absent (\<open>undefined\<close> or \<open>null\<close>).
\<close>

record SummarizationOptions =
  length_field :: "SummaryLength option"
  format :: "SummaryFormat option"
  listen :: "bool option"
  model :: "SummarizationModel option"
  speed :: "SummarizationSpeed option"

text \<open>The operators \<open>options?.field\<close> and \<open>value ?? default\<close>.\<close>

definition optChain :: "'o option \<Rightarrow> ('o \<Rightarrow> 'a option) \<Rightarrow> 'a option" where
  "optChain obj field = (case obj of None \<Rightarrow> None | Some x \<Rightarrow> field x)"

definition nullish :: "'a option \<Rightarrow> 'a \<Rightarrow> 'a" where
  "nullish v d = (case v of None \<Rightarrow> d | Some x \<Rightarrow> x)"

text \<open>\<open>getSummarizationOptions\<close> of the current revision of the utilities (five fields).\<close>

definition getSummarizationOptions :: "SummarizationOptions option \<Rightarrow> SummarizationOptions" where
  "getSummarizationOptions options =
     \<lparr> length_field = Some (nullish (optChain options length_field) STANDARD),
       format = Some (nullish (optChain options format) NARRATIVE),
       listen = Some (nullish (optChain options listen) False),
       model = Some (nullish (optChain options model) OPENAI),
       speed = Some (nullish (optChain options speed) SLOW) \<rparr>"










definition getApiKey :: "string option \<Rightarrow> string option \<Rightarrow> exn + string" where
  "getApiKey userApiKey defaultApiKey =
     (if truthy userApiKey then Inr (the userApiKey)
      else if truthy defaultApiKey then Inr (the defaultApiKey)
      else Inl (BadRequestException ''API key is required''))"

text \<open>
  The three patterns of \<open>extractVideoId\<close>, in the order of the array:
  \<^verbatim>\<open>/(?:v=|\/)([\w-]{11})(?:\?|&|\/|$)/\<close>,
  \<^verbatim>\<open>/youtu\.be\/([\w-]{11})(?:\?|&|$)/\<close>,
  \<^verbatim>\<open>/\/shorts\/([\w-]{11})(?:\?|&|$)/\<close>.
\<close>

definition idGroup :: regex where
  "idGroup = Cap 1 (Rep 11 (Atom isIdChar))"

definition pattern1 :: regex where
  "pattern1 =
     Seq (Alt (lit ''v='') (chr CHR ''/''))
    (Seq idGroup
         (Alt (chr CHR ''?'') (Alt (chr CHR ''&'') (Alt (chr CHR ''/'') Eol))))"

definition pattern2 :: regex where
  "pattern2 =
     Seq (lit ''youtu.be/'')
    (Seq idGroup
         (Alt (chr CHR ''?'') (Alt (chr CHR ''&'') Eol)))"

definition pattern3 :: regex where
  "pattern3 =
     Seq (lit ''/shorts/'')
    (Seq idGroup
         (Alt (chr CHR ''?'') (Alt (chr CHR ''&'') Eol)))"

definition patterns :: "regex list" where
  "patterns = [pattern1, pattern2, pattern3]"

text \<open>The \<open>for\<close> loop over the patterns: the first pattern with a match returns.\<close>

fun firstMatch :: "regex list \<Rightarrow> string \<Rightarrow> string option" where
  "firstMatch [] url = None"
| "firstMatch (p # ps) url =
     (case exec p url of None \<Rightarrow> firstMatch ps url | Some m \<Rightarrow> group m 1)"

definition extractVideoId :: "string \<Rightarrow> string option" where
  "extractVideoId url = firstMatch patterns url"

section \<open>String and path functions of the platform\<close>

text \<open>
  \<open>String.prototype.trim\<close> removes white space and line terminators from both ends;
  in the Latin-1 range these are TAB, LF, VT, FF, CR, SP and NBSP.
\<close>

definition isWhiteSpace :: "char \<Rightarrow> bool" where
  "isWhiteSpace c = (let n = (of_char c :: nat) in
     n = 9 \<or> n = 10 \<or> n = 11 \<or> n = 12 \<or> n = 13 \<or> n = 32 \<or> n = 160)"

definition trim :: "string \<Rightarrow> string" where
  "trim s = rev (dropWhile isWhiteSpace (rev (dropWhile isWhiteSpace s)))"

text \<open>
  \<open>s.split(c)\<close> for a separator of one character, and \<open>xs.join(sep)\<close>. The split of the
  empty string is the list of the empty string.
\<close>

fun split_str :: "char \<Rightarrow> string \<Rightarrow> string list" where
  "split_str c [] = [[]]"
| "split_str c (x # xs) =
     (if x = c then [] # split_str c xs
      else (x # hd (split_str c xs)) # tl (split_str c xs))"

fun join_str :: "string \<Rightarrow> string list \<Rightarrow> string" where
  "join_str sep [] = []"
| "join_str sep [w] = w"
| "join_str sep (w # v # ws) = w @ sep @ join_str sep (v # ws)"

text \<open>
  \<open>String.prototype.toLowerCase\<close> on Latin-1: the letters A to Z and the accented
  capitals (U+00C0 to U+00DE without the multiplication sign) move up by 32.
\<close>

definition toLowerChar :: "char \<Rightarrow> char" where
  "toLowerChar c = (let n = (of_char c :: nat) in
     if (65 \<le> n \<and> n \<le> 90) \<or> (192 \<le> n \<and> n \<le> 222 \<and> n \<noteq> 215)
     then char_of (n + 32) else c)"

definition toLowerCase :: "string \<Rightarrow> string" where
  "toLowerCase s = map toLowerChar s"

text \<open>
  \<open>path.join\<close> for a directory and a file name that need no normalisation, and
  \<open>path.basename\<close> and \<open>path.extname\<close> of Node.js (POSIX flavour): the last portion of
  the path, trailing separators ignored, and its extension from the last dot on; the
  extension is empty when the portion has no dot, when its only dot is its first
  character, and for the portion \<open>..\<close>.
\<close>

definition pathJoin :: "string \<Rightarrow> string \<Rightarrow> string" where
  "pathJoin dir name = dir @ ''/'' @ name"

definition basename :: "string \<Rightarrow> string" where
  "basename p =
     rev (takeWhile (\<lambda>c. c \<noteq> CHR ''/'') (dropWhile (\<lambda>c. c = CHR ''/'') (rev p)))"

definition extname :: "string \<Rightarrow> string" where
  "extname p =
     (let b = basename p;
          e = rev (takeWhile (\<lambda>c. c \<noteq> CHR ''.'') (rev b));
          stem = take (length b - length e - 1) b
      in if CHR ''.'' \<notin> set b \<or> stem = [] \<or> b = ''..'' then [] else CHR ''.'' # e)"

definition startsWith :: "string \<Rightarrow> string \<Rightarrow> bool" where
  "startsWith s p = (take (length p) s = p)"

section \<open>The world outside the service\<close>

text \<open>An uploaded file (\<open>Express.Multer.File\<close>), and the request and result objects.\<close>

record MulterFile =
  originalname :: string
  mimetype :: string
  buffer :: string

record SummarizeVideoDto =
  videoUrl :: string

record SummaryResult =
  transcript :: string
  summary :: string

text \<open>
  The response of the completion service: \<open>choices\<close>, each with an optional \<open>message\<close>
  that has an optional \<open>content\<close>.
\<close>

datatype chatMessage = ChatMessage (content: "string option")

datatype choice = Choice (choice_message: "chatMessage option")

text \<open>
  Every invocation of an external collaborator is recorded, in order. The prompt of a
  completion embeds the resolved length and format and the text; the call is recorded
  with these three components (the strings of the enum members are not among the
  sources).
\<close>

datatype call =
    FetchTranscript string
  | Ytdlp string string
  | Transcription string string
  | ChatCompletion string "SummaryLength option" "SummaryFormat option" string
  | ExtractPdf MulterFile
  | ExtractDocx MulterFile

text \<open>
  The state a request can change: the names of the files in the download directory and
  the record of the external calls.
\<close>

record world =
  downloads :: "string list"
  calls :: "call list"

text \<open>
  The collaborators and the configuration of one request. \<open>ytdlp\<close> answers with the
  names of the files it wrote into the download directory and with its failure, if
  any. \<open>randomSuffix\<close> is the value that \<open>generateRandomSuffix()\<close> draws in this request.
\<close>

record env =
  defaultApiKey :: "string option"
  cwd :: string
  randomSuffix :: string
  fetchTranscript :: "string \<Rightarrow> exn + string list"
  ytdlp :: "string \<Rightarrow> string \<Rightarrow> string list \<times> exn option"
  transcriptionsCreate :: "string \<Rightarrow> string \<Rightarrow> exn + string"
  completionsCreate ::
    "string \<Rightarrow> SummaryLength option \<Rightarrow> SummaryFormat option \<Rightarrow> string \<Rightarrow> exn + choice list"
  extractTextFromPdf :: "MulterFile \<Rightarrow> exn + string"
  extractTextFromDocx :: "MulterFile \<Rightarrow> exn + string"
  toStringUtf8 :: "string \<Rightarrow> string"

definition logCall :: "call \<Rightarrow> world \<Rightarrow> world" where
  "logCall c w = w\<lparr>calls := calls w @ [c]\<rparr>"

definition DOWNLOAD_DIR :: "env \<Rightarrow> string" where
  "DOWNLOAD_DIR e = pathJoin (cwd e) ''downloads''"

definition AUDIO_FORMAT :: string where
  "AUDIO_FORMAT = ''mp3''"

definition MAX_TOKENS :: nat where
  "MAX_TOKENS = 15000"

text \<open>\<open>existsSync\<close>, for the paths of the download directory.\<close>

definition existsSync :: "env \<Rightarrow> world \<Rightarrow> string \<Rightarrow> bool" where
  "existsSync e w p = (p \<in> set (map (pathJoin (DOWNLOAD_DIR e)) (downloads w)))"

text \<open>
  Modelled from the spec: \<open>generateRandomSuffix\<close>, \<open>extractPrefixFromPath\<close> and
  \<open>cleanupFiles\<close> are imported from the utilities but are in neither revision of them.
  The spec: a unique file name prefix is generated; the audio path is the prefix plus
  the fixed extension; cleanup deletes every file in the download directory whose name
  starts with the generated prefix.
\<close>

definition generateRandomSuffix :: "env \<Rightarrow> string" where
  "generateRandomSuffix e = randomSuffix e"

definition extractPrefixFromPath :: "string \<Rightarrow> string" where
  "extractPrefixFromPath p =
     take (length (basename p) - length (extname p)) (basename p)"

definition cleanupFiles :: "string \<Rightarrow> world \<Rightarrow> world" where
  "cleanupFiles prefix w = w\<lparr>downloads := filter (\<lambda>f. \<not> startsWith f prefix) (downloads w)\<rparr>"

section \<open>summarization/summarization.service.ts\<close>

text \<open>
  Every method takes the world and returns its outcome with the world it leaves: \<open>Inl\<close>
  is the exception with which the promise is rejected, \<open>Inr\<close> the value with which it
  is fulfilled. Console output is not modelled.
\<close>

definition fetchYouTubeTranscript :: "env \<Rightarrow> world \<Rightarrow> string \<Rightarrow> (exn + string) \<times> world" where
  "fetchYouTubeTranscript e w videoId =
     (let w1 = logCall (FetchTranscript videoId) w in
      case fetchTranscript e videoId of
        Inl err \<Rightarrow>
          (Inl (Error (''Could not fetch transcript from YouTube: '' @ message err)), w1)
      | Inr transcriptItems \<Rightarrow>
          (let fullTranscript =
                 join_str '' '' (filter (\<lambda>text. length text > 0) (map trim transcriptItems));
               wrds = split_str CHR '' '' fullTranscript;
               safeLength = MAX_TOKENS div 4
           in (Inr (join_str '' '' (take safeLength wrds)), w1)))"

definition downloadAudio :: "env \<Rightarrow> world \<Rightarrow> string \<Rightarrow> (exn + string) \<times> world" where
  "downloadAudio e w url =
     (let prefix = generateRandomSuffix e;
          audioPath = pathJoin (DOWNLOAD_DIR e) (prefix @ ''.'' @ AUDIO_FORMAT);
          (written, failure) = ytdlp e url audioPath;
          w1 = (logCall (Ytdlp url audioPath) w)\<lparr>downloads := downloads w @ written\<rparr>
      in case failure of
           Some err \<Rightarrow> (Inl (Error ''Failed to download audio''), w1)
         | None \<Rightarrow>
             if \<not> existsSync e w1 audioPath
             then (Inl (Error ''Failed to download audio''), w1)
             else (Inr audioPath, w1))"

definition transcribeAudio ::
  "env \<Rightarrow> world \<Rightarrow> string \<Rightarrow> string option \<Rightarrow> (exn + string) \<times> world" where
  "transcribeAudio e w audioPath userApiKey =
     (case getApiKey userApiKey (defaultApiKey e) of
        Inl err \<Rightarrow> (Inl err, w)
      | Inr apiKey \<Rightarrow>
          (let w1 = logCall (Transcription apiKey audioPath) w in
           case transcriptionsCreate e apiKey audioPath of
             Inl err \<Rightarrow> (Inl (Error (''Failed to transcribe audio: '' @ message err)), w1)
           | Inr text \<Rightarrow> (Inr text, w1)))"

text \<open>\<open>response.choices[0]?.message?.content || 'Could not generate a summary.'\<close>\<close>

definition firstContent :: "choice list \<Rightarrow> string option" where
  "firstContent choices =
     optChain (optChain (case choices of [] \<Rightarrow> None | c # cs \<Rightarrow> Some c) choice_message) content"

definition summarizeText ::
  "env \<Rightarrow> world \<Rightarrow> string \<Rightarrow> SummarizationOptions option \<Rightarrow> string option
     \<Rightarrow> (exn + string) \<times> world" where
  "summarizeText e w text options userApiKey =
     (case getApiKey userApiKey (defaultApiKey e) of
        Inl err \<Rightarrow> (Inl err, w)
      | Inr apiKey \<Rightarrow>
          (let resolved = getSummarizationOptions options;
               w1 = logCall (ChatCompletion apiKey (length_field resolved) (format resolved) text) w
           in case completionsCreate e apiKey (length_field resolved) (format resolved) text of
                Inl err \<Rightarrow> (Inl (Error (''Failed to summarize text: '' @ message err)), w1)
              | Inr choices \<Rightarrow>
                  (Inr (if truthy (firstContent choices) then the (firstContent choices)
                        else ''Could not generate a summary.''), w1)))"

text \<open>
  The audio branch. Every step is awaited inside the \<open>try\<close> block, so the rejection of
  any of them goes to the \<open>catch\<close> clause, which throws the new \<open>Error\<close>; the two cleanup
  statements follow the three awaited steps inside the \<open>try\<close> block.
\<close>

definition summarizeYouTubeVideoUsingAudio ::
  "env \<Rightarrow> world \<Rightarrow> string \<Rightarrow> SummarizationOptions \<Rightarrow> string option
     \<Rightarrow> (exn + SummaryResult) \<times> world" where
  "summarizeYouTubeVideoUsingAudio e w url options userApiKey =
     (let wrap = (\<lambda>err. Inl (Error (''Failed to summarize video using audio: '' @ message err)))
      in case downloadAudio e w url of
        (Inl err, w1) \<Rightarrow> (wrap err, w1)
      | (Inr audioPath, w1) \<Rightarrow>
          (case transcribeAudio e w1 audioPath userApiKey of
             (Inl err, w2) \<Rightarrow> (wrap err, w2)
           | (Inr transcript', w2) \<Rightarrow>
               (case summarizeText e w2 transcript' (Some options) userApiKey of
                  (Inl err, w3) \<Rightarrow> (wrap err, w3)
                | (Inr summary', w3) \<Rightarrow>
                    (let prefix = extractPrefixFromPath audioPath;
                         w4 = cleanupFiles prefix w3
                     in (Inr \<lparr>transcript = transcript', summary = summary'\<rparr>, w4)))))"

text \<open>
  How a block of an \<open>async\<close> function completes: it throws (also when an awaited promise
  is rejected), or it returns. \<open>return p\<close> with a promise \<open>p\<close> that is not awaited leaves
  the block at once and resolves the promise of the function with \<open>p\<close>: a later
  rejection of \<open>p\<close> is the rejection of the function, and no \<open>catch\<close> clause around the
  \<open>return\<close> statement sees it. \<open>Return\<close> therefore carries the outcome of the returned
  promise, and \<open>tryCatch\<close> hands only \<open>Throw\<close> to the handler.
\<close>

datatype 'a completion = Throw exn | Return "exn + 'a"

definition tryCatch ::
  "'a completion \<times> world \<Rightarrow> (exn \<Rightarrow> world \<Rightarrow> 'a completion \<times> world) \<Rightarrow> 'a completion \<times> world" where
  "tryCatch body handler =
     (case body of (Throw err, w) \<Rightarrow> handler err w | (Return p, w) \<Rightarrow> (Return p, w))"

definition settle :: "'a completion \<Rightarrow> exn + 'a" where
  "settle c = (case c of Throw err \<Rightarrow> Inl err | Return p \<Rightarrow> p)"

text \<open>The body of the inner \<open>try\<close> block of \<open>summarizeYouTubeVideo\<close>.\<close>

definition transcriptBranch ::
  "env \<Rightarrow> world \<Rightarrow> string \<Rightarrow> SummarizationOptions \<Rightarrow> string option
     \<Rightarrow> SummaryResult completion \<times> world" where
  "transcriptBranch e w url options userApiKey =
     (let videoId = extractVideoId url in
      if \<not> truthy videoId
      then (case summarizeYouTubeVideoUsingAudio e w url options userApiKey of
              (p, w1) \<Rightarrow> (Return p, w1))
      else (case fetchYouTubeTranscript e w (the videoId) of
              (Inl err, w1) \<Rightarrow> (Throw err, w1)
            | (Inr transcript', w1) \<Rightarrow>
                (case summarizeText e w1 transcript' (Some options) userApiKey of
                   (Inl err, w2) \<Rightarrow> (Throw err, w2)
                 | (Inr summary', w2) \<Rightarrow>
                     (Return (Inr \<lparr>transcript = transcript', summary = summary'\<rparr>), w2))))"

definition summarizeYouTubeVideo ::
  "env \<Rightarrow> world \<Rightarrow> SummarizeVideoDto \<Rightarrow> SummarizationOptions option \<Rightarrow> string option
     \<Rightarrow> (exn + SummaryResult) \<times> world" where
  "summarizeYouTubeVideo e w content' optionsDto userApiKey =
     (let url = videoUrl content' in
      if \<not> isValidYouTubeUrl url
      then (Inl (BadRequestException ''Invalid YouTube URL''), w)
      else
        (let options = getSummarizationOptions optionsDto;
             (c, w') =
               tryCatch
                 (tryCatch
                    (transcriptBranch e w url options userApiKey)
                    (\<lambda>transcriptError w1.
                       case summarizeYouTubeVideoUsingAudio e w1 url options userApiKey of
                         (p, w2) \<Rightarrow> (Return p, w2)))
                 (\<lambda>error w1. (Throw (BadRequestException (message error)), w1))
         in (settle c, w')))"

definition extractTextFromFile :: "env \<Rightarrow> world \<Rightarrow> MulterFile \<Rightarrow> (exn + string) \<times> world" where
  "extractTextFromFile e w file =
     (let ext = toLowerCase (extname (originalname file)) in
      if ext = ''.txt'' then (Inr (toStringUtf8 e (buffer file)), w)
      else if ext = ''.pdf'' then (extractTextFromPdf e file, logCall (ExtractPdf file) w)
      else if ext = ''.docx'' then (extractTextFromDocx e file, logCall (ExtractDocx file) w)
      else (Inl (UnsupportedMediaTypeException
                   ''Unsupported file format. Only PDF, TXT, and DOCX are allowed.''), w))"

definition summarizeFile ::
  "env \<Rightarrow> world \<Rightarrow> MulterFile \<Rightarrow> SummarizationOptions option \<Rightarrow> string option
     \<Rightarrow> (exn + string) \<times> world" where
  "summarizeFile e w file optionsDto userApiKey =
     (let options = getSummarizationOptions optionsDto in
      case extractTextFromFile e w file of
        (Inl err, w1) \<Rightarrow> (Inl err, w1)
      | (Inr text, w1) \<Rightarrow>
          if trim text = []
          then (Inl (BadRequestException ''Could not extract text from the file.''), w1)
          else summarizeText e w1 text (Some options) userApiKey)"

section \<open>Example requests\<close>

text \<open>
  A configuration in which every collaborator answers, and a world in which the download
  directory already holds the file of another request.
\<close>

definition env_ok :: env where
  "env_ok = \<lparr> defaultApiKey = Some ''sk-default'', cwd = ''/app'', randomSuffix = ''k3x9'',
     fetchTranscript = (\<lambda>v. Inr [''hello '', '' '', ''world'']),
     ytdlp = (\<lambda>u p. ([''k3x9.mp3''], None)),
     transcriptionsCreate = (\<lambda>k p. Inr ''spoken words''),
     completionsCreate = (\<lambda>k l f t. Inr [Choice (Some (ChatMessage (Some ''a summary'')))]),
     extractTextFromPdf = (\<lambda>f. Inr ''pdf text''),
     extractTextFromDocx = (\<lambda>f. Inr ''docx text''),
     toStringUtf8 = (\<lambda>b. b) \<rparr>"

definition w0 :: world where
  "w0 = \<lparr>downloads = [''other.mp3''], calls = []\<rparr>"





text \<open>An upload with a given name and content.\<close>

definition upload :: "string \<Rightarrow> string \<Rightarrow> MulterFile" where
  "upload name bytes = \<lparr>originalname = name, mimetype = ''application/octet-stream'', buffer = bytes\<rparr>"

text \<open>
  The full joined transcript of a list of segment texts: the trimmed segments that are
  not empty, joined with single spaces.
\<close>

definition joinedTranscript :: "string list \<Rightarrow> string" where
  "joinedTranscript items = join_str '' '' (filter (\<lambda>t. t \<noteq> []) (map trim items))"

text \<open>
  The words of a string when white space separates them: the non-empty pieces between
  white space characters, as \<open>s.split(/\s+/)\<close> without empty pieces gives them. And a
  caption segment of two lines, \<open>a\<close> and \<open>b\<close> with a line feed between them.
\<close>

fun ws_split :: "string \<Rightarrow> string list" where
  "ws_split [] = [[]]"
| "ws_split (x # xs) =
     (if isWhiteSpace x then [] # ws_split xs
      else (x # hd (ws_split xs)) # tl (ws_split xs))"

definition wsWords :: "string \<Rightarrow> string list" where
  "wsWords s = filter (\<lambda>w. w \<noteq> []) (ws_split s)"

definition twoLines :: string where
  "twoLines = [CHR ''a'', CHR 0x0A, CHR ''b'']"

text \<open>
  What the first pattern asks of the input at one start index, written without the
  matcher: \<open>idThen enders t\<close> holds when \<open>t\<close> starts with eleven identifier characters
  followed by the end of the input or by one of the characters \<open>enders\<close>; \<open>idAt1 t\<close>
  when \<open>t\<close> starts with \<open>v=\<close> or \<open>/\<close> and continues so; \<open>idOf1 t\<close> is the identifier
  there.
\<close>

definition idThen :: "string \<Rightarrow> string \<Rightarrow> bool" where
  "idThen enders t =
     (11 \<le> length t \<and> list_all isIdChar (take 11 t) \<and>
      (drop 11 t = [] \<or> hd (drop 11 t) \<in> set enders))"

definition idAt1 :: "string \<Rightarrow> bool" where
  "idAt1 t = ((take 2 t = ''v='' \<and> idThen ''?&/'' (drop 2 t)) \<or>
              (take 1 t = ''/'' \<and> idThen ''?&/'' (drop 1 t)))"

definition idOf1 :: "string \<Rightarrow> string" where
  "idOf1 t = (if take 2 t = ''v='' then take 11 (drop 2 t) else take 11 (drop 1 t))"

text \<open>
  The leftmost identifier of that shape, by a scan of the input from the left: what the
  first pattern reports, stated without the matcher.
\<close>

fun firstId :: "string \<Rightarrow> string option" where
  "firstId [] = None"
| "firstId (c # cs) = (if idAt1 (c # cs) then Some (idOf1 (c # cs)) else firstId cs)"

section \<open>Properties of the utilities\<close>















text \<open>
  C6. \<open>getApiKey\<close> returns the user's key when it is a non-empty string; otherwise the
  default key when that is a non-empty string; otherwise it throws the
  \<open>BadRequestException\<close> with the message \<open>API key is required\<close>; and it throws in no
  other case.
\<close>

theorem getApiKey_resolution:
  "(\<forall>k. userKey = Some k \<and> k \<noteq> [] \<longrightarrow> getApiKey userKey defaultKey = Inr k) \<and>
   (\<not> truthy userKey \<longrightarrow>
      (\<forall>k. defaultKey = Some k \<and> k \<noteq> [] \<longrightarrow> getApiKey userKey defaultKey = Inr k)) \<and>
   (\<not> truthy userKey \<and> \<not> truthy defaultKey \<longrightarrow>
      getApiKey userKey defaultKey = Inl (BadRequestException ''API key is required'')) \<and>
   ((\<exists>err. getApiKey userKey defaultKey = Inl err) \<longleftrightarrow>
      \<not> truthy userKey \<and> \<not> truthy defaultKey)"
  by (cases userKey; cases defaultKey) (auto simp: getApiKey_def)

theorem getApiKey_resolution_witness:
  "getApiKey (Some ''k1'') (Some ''k2'') = Inr ''k1'' \<and>
   getApiKey None (Some ''k2'') = Inr ''k2'' \<and>
   getApiKey (Some []) (Some ''k2'') = Inr ''k2'' \<and>
   getApiKey None None = Inl (BadRequestException ''API key is required'') \<and>
   getApiKey (Some []) (Some []) = Inl (BadRequestException ''API key is required'')"
  using getApiKey_resolution [of "Some ''k1''" "Some ''k2''"]
    getApiKey_resolution [of None "Some ''k2''"]
    getApiKey_resolution [of "Some []" "Some ''k2''"]
    getApiKey_resolution [of None None]
    getApiKey_resolution [of "Some []" "Some []"]
  by simp

text \<open>
  C9. \<open>isValidYouTubeUrl\<close> accepts \<open>https://youtube/abc\<close>: the third group of the pattern
  matches the host \<open>youtube\<close> through the alternative \<open>youtu\.?be\<close> with the optional dot
  left out, so a host that is none of the four canonical spellings is accepted.
\<close>

theorem isValidYouTubeUrl_accepts_host_without_dot:
  "isValidYouTubeUrl ''https://youtube/abc'' \<and>
   Option.bind (exec ytRegex ''https://youtube/abc'') (\<lambda>m. group m 3) = Some ''youtube''"
  by code_simp

section \<open>Properties of the service\<close>

text \<open>
  C10. When the key resolves and the completion service answers with no choice, with a
  first choice without a message, or with a first choice whose message content is
  absent or the empty string, \<open>summarizeText\<close> returns the placeholder
  \<open>Could not generate a summary.\<close>: the empty content counts as no content.
\<close>

theorem summarizeText_placeholder:
  assumes "getApiKey userApiKey (defaultApiKey e) = Inr apiKey"
    and "completionsCreate e apiKey (length_field (getSummarizationOptions options))
           (format (getSummarizationOptions options)) text = Inr choices"
    and "choices = [] \<or> (\<exists>more. choices = Choice None # more)
         \<or> (\<exists>c more. choices = Choice (Some (ChatMessage c)) # more \<and> (c = None \<or> c = Some []))"
  shows "fst (summarizeText e w text options userApiKey) = Inr ''Could not generate a summary.''"
  using assms by (auto simp: summarizeText_def firstContent_def optChain_def Let_def)

theorem summarizeText_placeholder_witness:
  "fst (summarizeText
          (env_ok\<lparr>completionsCreate := (\<lambda>k l f t. Inr [Choice (Some (ChatMessage (Some [])))])\<rparr>)
          w0 ''some text'' None None) = Inr ''Could not generate a summary.''"
  by (rule summarizeText_placeholder
        [where apiKey = "''sk-default''" and choices = "[Choice (Some (ChatMessage (Some [])))]"])
     (simp_all add: env_ok_def getApiKey_def)

text \<open>
  C1. A run of the audio branch in which the download wrote \<open>k3x9.mp3\<close> and the
  transcription then failed: the request ends with the wrapped error, and the file with
  the generated prefix \<open>k3x9\<close> is still in the download directory. Cleanup is the last
  statement pair of the \<open>try\<close> block and is skipped by every rejection before it.
\<close>

theorem audio_file_survives_failed_transcription:
  "summarizeYouTubeVideoUsingAudio
     (env_ok\<lparr>transcriptionsCreate := (\<lambda>k p. Inl (Error ''timeout''))\<rparr>) w0
     ''https://youtu.be/abc'' (getSummarizationOptions None) None =
   (Inl (Error ''Failed to summarize video using audio: Failed to transcribe audio: timeout''),
    \<lparr>downloads = [''other.mp3'', ''k3x9.mp3''],
     calls = [Ytdlp ''https://youtu.be/abc'' ''/app/downloads/k3x9.mp3'',
              Transcription ''sk-default'' ''/app/downloads/k3x9.mp3'']\<rparr>)"
  by code_simp

text \<open>
  C2. A valid URL without an extractable identifier, and a download tool that fails:
  the caller of \<open>summarizeYouTubeVideo\<close> receives the plain \<open>Error\<close> of the audio branch,
  not a \<open>BadRequestException\<close>. The promise of the audio branch is returned without
  \<open>await\<close>, so its rejection passes both \<open>catch\<close> clauses.
\<close>

theorem audio_failure_surfaces_as_plain_Error:
  "summarizeYouTubeVideo (env_ok\<lparr>ytdlp := (\<lambda>u p. ([], Some (Error ''exit code 1'')))\<rparr>) w0
     \<lparr>videoUrl = ''https://youtu.be/abc''\<rparr> None None =
   (Inl (Error ''Failed to summarize video using audio: Failed to download audio''),
    \<lparr>downloads = [''other.mp3''],
     calls = [Ytdlp ''https://youtu.be/abc'' ''/app/downloads/k3x9.mp3'']\<rparr>) \<and>
   \<not> isBadRequest (Error ''Failed to summarize video using audio: Failed to download audio'')"
  by code_simp

section \<open>Properties of the text pipeline\<close>

lemma basename_of_name:
  assumes "stem \<noteq> []" "last stem \<noteq> CHR ''/''" "ext \<noteq> []" "CHR ''/'' \<notin> set ext"
  shows "basename (stem @ CHR ''.'' # ext) =
         rev (takeWhile (\<lambda>c. c \<noteq> CHR ''/'') (rev stem)) @ CHR ''.'' # ext"
proof -
  have hd: "hd (rev ext) \<noteq> CHR ''/''"
    using assms(3,4) by (metis hd_rev last_in_set)
  have "rev (stem @ CHR ''.'' # ext) = rev ext @ CHR ''.'' # rev stem" by simp
  moreover have "dropWhile (\<lambda>c. c = CHR ''/'') (rev ext @ CHR ''.'' # rev stem)
       = rev ext @ CHR ''.'' # rev stem"
    using assms(3) hd by (cases "rev ext") auto
  moreover have "takeWhile (\<lambda>c. c \<noteq> CHR ''/'') (rev ext @ CHR ''.'' # rev stem)
       = rev ext @ CHR ''.'' # takeWhile (\<lambda>c. c \<noteq> CHR ''/'') (rev stem)"
    using assms(4) by (subst takeWhile_append2) auto
  ultimately show ?thesis by (simp add: basename_def)
qed

lemma extname_of_name:
  assumes "stem \<noteq> []" "last stem \<noteq> CHR ''/''" "ext \<noteq> []" "CHR ''/'' \<notin> set ext"
    "CHR ''.'' \<notin> set ext"
  shows "extname (stem @ CHR ''.'' # ext) = CHR ''.'' # ext"
proof -
  define t where "t = rev (takeWhile (\<lambda>c. c \<noteq> CHR ''/'') (rev stem))"
  have t: "t \<noteq> []"
    using assms(1,2) by (cases "rev stem") (auto simp: t_def last_rev)
  have b: "basename (stem @ CHR ''.'' # ext) = t @ CHR ''.'' # ext"
    using basename_of_name [OF assms(1-4)] by (simp add: t_def)
  have e: "rev (takeWhile (\<lambda>c. c \<noteq> CHR ''.'') (rev (t @ CHR ''.'' # ext))) = ext"
  proof -
    have "takeWhile (\<lambda>c. c \<noteq> CHR ''.'') (rev ext @ CHR ''.'' # rev t) = rev ext"
      using assms(5) by (subst takeWhile_append2) auto
    then show ?thesis by simp
  qed
  have ne: "t @ CHR ''.'' # ext \<noteq> ''..''"
    using t assms(3) by (cases t; cases ext) auto
  show ?thesis
    unfolding extname_def b Let_def e using t ne by simp
qed


lemma of_char_toLowerChar:
  "(of_char (toLowerChar c) :: nat) =
     (if (65 \<le> (of_char c :: nat) \<and> (of_char c :: nat) \<le> 90) \<or>
         (192 \<le> (of_char c :: nat) \<and> (of_char c :: nat) \<le> 222 \<and> (of_char c :: nat) \<noteq> 215)
      then of_char c + 32 else of_char c)"
  by (auto simp: toLowerChar_def Let_def)

lemma toLowerChar_separator:
  assumes "d = CHR ''.'' \<or> d = CHR ''/''"
  shows "toLowerChar c = d \<longleftrightarrow> c = d"
proof -
  have "toLowerChar c = d \<longleftrightarrow> (of_char (toLowerChar c) :: nat) = of_char d"
    by simp
  also have "\<dots> \<longleftrightarrow> (of_char c :: nat) = of_char d"
    using assms by (auto simp: of_char_toLowerChar)
  also have "\<dots> \<longleftrightarrow> c = d" by simp
  finally show ?thesis .
qed

lemma toLowerCase_no_separator:
  assumes "toLowerCase ext = l" "d = CHR ''.'' \<or> d = CHR ''/''" "d \<notin> set l"
  shows "d \<notin> set ext"
proof
  assume "d \<in> set ext"
  then have "toLowerChar d \<in> set (toLowerCase ext)" by (simp add: toLowerCase_def)
  moreover have "toLowerChar d = d" using toLowerChar_separator [OF assms(2), of d] by simp
  ultimately show False using assms(1,3) by simp
qed

lemma lowered_extname:
  assumes "originalname file = stem @ ''.'' @ ext" "stem \<noteq> []" "last stem \<noteq> CHR ''/''"
    "toLowerCase ext = l" "l \<noteq> []" "CHR ''.'' \<notin> set l" "CHR ''/'' \<notin> set l"
  shows "toLowerCase (extname (originalname file)) = CHR ''.'' # l"
proof -
  have ne: "ext \<noteq> []" using assms(4,5) by (auto simp: toLowerCase_def)
  have d: "CHR ''.'' \<notin> set ext" using toLowerCase_no_separator [OF assms(4) _ assms(6)] by simp
  have sl: "CHR ''/'' \<notin> set ext" using toLowerCase_no_separator [OF assms(4) _ assms(7)] by simp
  have "extname (originalname file) = CHR ''.'' # ext"
    using extname_of_name [OF assms(2,3) ne sl d] assms(1) by simp
  moreover have "toLowerChar CHR ''.'' = CHR ''.''"
    using toLowerChar_separator [of "CHR ''.''" "CHR ''.''"] by simp
  ultimately show ?thesis using assms(4) by (simp add: toLowerCase_def)
qed

text \<open>
  C8. For an upload named \<open>stem.ext\<close> (the stem non-empty and not ending in a slash),
  the dispatch of \<open>extractTextFromFile\<close> depends on the extension in lower case only:
  every spelling of \<open>txt\<close>, \<open>pdf\<close> or \<open>docx\<close> in upper, lower or mixed case is accepted
  and goes where the lower-case spelling goes (the decoded buffer, the PDF extractor,
  the DOCX extractor), never to the unsupported-format error.
\<close>

theorem extractTextFromFile_lowercases_extension:
  assumes "originalname file = stem @ ''.'' @ ext" and "stem \<noteq> []" and "last stem \<noteq> CHR ''/''"
  shows "(toLowerCase ext = ''txt'' \<longrightarrow>
            extractTextFromFile e w file = (Inr (toStringUtf8 e (buffer file)), w)) \<and>
         (toLowerCase ext = ''pdf'' \<longrightarrow>
            extractTextFromFile e w file = (extractTextFromPdf e file, logCall (ExtractPdf file) w)) \<and>
         (toLowerCase ext = ''docx'' \<longrightarrow>
            extractTextFromFile e w file = (extractTextFromDocx e file, logCall (ExtractDocx file) w))"
proof (intro conjI impI)
  assume "toLowerCase ext = ''txt''"
  then have "toLowerCase (extname (originalname file)) = ''.txt''"
    using lowered_extname [OF assms, of "''txt''"] by simp
  then show "extractTextFromFile e w file = (Inr (toStringUtf8 e (buffer file)), w)"
    by (simp add: extractTextFromFile_def)
next
  assume "toLowerCase ext = ''pdf''"
  then have "toLowerCase (extname (originalname file)) = ''.pdf''"
    using lowered_extname [OF assms, of "''pdf''"] by simp
  then show "extractTextFromFile e w file = (extractTextFromPdf e file, logCall (ExtractPdf file) w)"
    by (simp add: extractTextFromFile_def)
next
  assume "toLowerCase ext = ''docx''"
  then have "toLowerCase (extname (originalname file)) = ''.docx''"
    using lowered_extname [OF assms, of "''docx''"] by simp
  then show "extractTextFromFile e w file = (extractTextFromDocx e file, logCall (ExtractDocx file) w)"
    by (simp add: extractTextFromFile_def)
qed

lemma lower_examples:
  "toLowerCase ''TXT'' = ''txt''" "toLowerCase ''Pdf'' = ''pdf''" "toLowerCase ''DOCX'' = ''docx''"
  by code_simp+

theorem extractTextFromFile_lowercases_extension_witness:
  "extractTextFromFile env_ok w0 (upload ''NOTES.TXT'' ''bytes'') = (Inr ''bytes'', w0) \<and>
   extractTextFromFile env_ok w0 (upload ''scans/report.Pdf'' ''bytes'') =
     (Inr ''pdf text'', logCall (ExtractPdf (upload ''scans/report.Pdf'' ''bytes'')) w0) \<and>
   extractTextFromFile env_ok w0 (upload ''thesis.DOCX'' ''bytes'') =
     (Inr ''docx text'', logCall (ExtractDocx (upload ''thesis.DOCX'' ''bytes'')) w0)"
  using extractTextFromFile_lowercases_extension
      [of "upload ''NOTES.TXT'' ''bytes''" "''NOTES''" "''TXT''" env_ok w0]
    extractTextFromFile_lowercases_extension
      [of "upload ''scans/report.Pdf'' ''bytes''" "''scans/report''" "''Pdf''" env_ok w0]
    extractTextFromFile_lowercases_extension
      [of "upload ''thesis.DOCX'' ''bytes''" "''thesis''" "''DOCX''" env_ok w0]
  by (simp add: lower_examples upload_def env_ok_def)

lemma split_str_nonempty: "split_str c s \<noteq> []"
  by (induction s) auto

lemma split_str_pieces: "w \<in> set (split_str c s) \<Longrightarrow> c \<notin> set w"
proof (induction s arbitrary: w)
  case Nil
  then show ?case by simp
next
  case (Cons x xs)
  obtain v vs where r: "split_str c xs = v # vs"
    using split_str_nonempty [of c xs] by (cases "split_str c xs") auto
  show ?case
  proof (cases "x = c")
    case True
    then show ?thesis using Cons by auto
  next
    case False
    then have "w = x # v \<or> w \<in> set vs" using Cons.prems r by simp
    moreover have "c \<notin> set v" using Cons.IH [of v] r by simp
    moreover have "w \<in> set vs \<Longrightarrow> c \<notin> set w" using Cons.IH [of w] r by simp
    ultimately show ?thesis using False by auto
  qed
qed

lemma join_split: "join_str [c] (split_str c s) = s"
proof (induction s)
  case Nil
  then show ?case by simp
next
  case (Cons x xs)
  obtain v vs where r: "split_str c xs = v # vs"
    using split_str_nonempty [of c xs] by (cases "split_str c xs") auto
  show ?case
    using Cons r by (cases vs) auto
qed

lemma split_word: "c \<notin> set w \<Longrightarrow> split_str c (w @ c # s) = w # split_str c s"
  by (induction w) auto

lemma split_single: "c \<notin> set w \<Longrightarrow> split_str c w = [w]"
  by (induction w) auto

lemma join_str_Cons: "ws \<noteq> [] \<Longrightarrow> join_str sep (w # ws) = w @ sep @ join_str sep ws"
  by (cases ws) auto

lemma split_join:
  "ws \<noteq> [] \<Longrightarrow> \<forall>w \<in> set ws. c \<notin> set w \<Longrightarrow> split_str c (join_str [c] ws) = ws"
proof (induction ws)
  case Nil
  then show ?case by simp
next
  case (Cons w ws)
  show ?case
  proof (cases "ws = []")
    case True
    then show ?thesis using Cons.prems by (simp add: split_single)
  next
    case False
    then have "split_str c (join_str [c] ws) = ws" using Cons by simp
    then show ?thesis using False Cons.prems by (simp add: join_str_Cons split_word)
  qed
qed

lemma join_take_prefix: "\<exists>r. join_str sep ws = join_str sep (take n ws) @ r"
proof (induction ws arbitrary: n)
  case Nil
  then show ?case by simp
next
  case (Cons w ws)
  show ?case
  proof (cases n)
    case 0
    then show ?thesis by simp
  next
    case (Suc m)
    obtain r where r: "join_str sep ws = join_str sep (take m ws) @ r"
      using Cons [of m] by blast
    show ?thesis
    proof (cases "take m ws = []")
      case True
      then show ?thesis using Suc by (cases ws) auto
    next
      case False
      then have "ws \<noteq> []" by auto
      then show ?thesis using Suc r False by (simp add: join_str_Cons)
    qed
  qed
qed

lemma startsWith_append: "startsWith (p @ r) p"
  by (simp add: startsWith_def)

text \<open>
  C5, as the code has it. When the transcript service answers, \<open>fetchYouTubeTranscript\<close>
  returns the first \<open>floor(MAX_TOKENS / 4) = 3750\<close> words of the joined transcript (the
  trimmed, non-empty segments joined with single spaces), joined with single spaces
  again, where a word is a piece of \<open>split(' ')\<close>: the pieces between occurrences of the
  space character. The words of the result are exactly the first 3750 words of the
  joined transcript (all of them when there are fewer), the result is a prefix of the
  joined transcript, and a transcript of 100000 such words gives exactly 3750.
\<close>

theorem fetchYouTubeTranscript_truncates:
  assumes "fetchTranscript e videoId = Inr items"
  shows "\<exists>result.
     fst (fetchYouTubeTranscript e w videoId) = Inr result \<and>
     result = join_str '' '' (take (MAX_TOKENS div 4) (split_str CHR '' '' (joinedTranscript items))) \<and>
     MAX_TOKENS div 4 = 3750 \<and>
     split_str CHR '' '' result = take 3750 (split_str CHR '' '' (joinedTranscript items)) \<and>
     length (split_str CHR '' '' result) = min 3750 (length (split_str CHR '' '' (joinedTranscript items))) \<and>
     startsWith (joinedTranscript items) result \<and>
     (length (split_str CHR '' '' (joinedTranscript items)) = 100000 \<longrightarrow>
        length (split_str CHR '' '' result) = 3750)"
proof -
  define full where "full = joinedTranscript items"
  define wrds where "wrds = split_str CHR '' '' full"
  define result where "result = join_str '' '' (take (MAX_TOKENS div 4) wrds)"
  have n: "MAX_TOKENS div 4 = 3750" by (simp add: MAX_TOKENS_def)
  have r: "fst (fetchYouTubeTranscript e w videoId) = Inr result"
    using assms
    by (simp add: fetchYouTubeTranscript_def Let_def result_def wrds_def full_def
        joinedTranscript_def)
  have ne: "take 3750 wrds \<noteq> []"
    using split_str_nonempty [of "CHR '' ''" full] by (simp add: wrds_def)
  have pieces: "\<forall>v \<in> set (take 3750 wrds). CHR '' '' \<notin> set v"
    using split_str_pieces [of _ "CHR '' ''" full] by (auto simp: wrds_def dest: in_set_takeD)
  have s: "split_str CHR '' '' result = take 3750 wrds"
    using split_join [OF ne pieces] by (simp add: result_def n)
  have l: "length (split_str CHR '' '' result) = min 3750 (length wrds)"
    by (simp add: s min.commute)
  obtain rest' where "join_str '' '' wrds = join_str '' '' (take 3750 wrds) @ rest'"
    using join_take_prefix [of "'' ''" wrds 3750] by blast
  then have "full = result @ rest'"
    using join_split [of "CHR '' ''" full] by (simp add: wrds_def result_def n)
  then have p: "startsWith full result" by (simp add: startsWith_append)
  have h: "length wrds = 100000 \<longrightarrow> length (split_str CHR '' '' result) = 3750"
    using l by simp
  show ?thesis
    using r n s l p h unfolding result_def wrds_def full_def by blast
qed

lemma joinedTranscript_replicate:
  "joinedTranscript (replicate n ''w'') = join_str '' '' (replicate n ''w'')"
proof -
  have "trim ''w'' = ''w''" by (simp add: trim_def isWhiteSpace_def)
  then show ?thesis by (simp add: joinedTranscript_def)
qed

lemma words_of_replicate:
  assumes "0 < n"
  shows "split_str CHR '' '' (joinedTranscript (replicate n ''w'')) = replicate n ''w''"
proof -
  have "replicate n ''w'' \<noteq> []" using assms by simp
  moreover have "\<forall>v \<in> set (replicate n ''w''). CHR '' '' \<notin> set v" by simp
  ultimately show ?thesis
    using split_join [of "replicate n ''w''" "CHR '' ''"] by (simp add: joinedTranscript_replicate)
qed

theorem fetchYouTubeTranscript_truncates_witness:
  "length (split_str CHR '' '' (joinedTranscript (replicate 100000 ''w''))) = 100000 \<and>
   (\<exists>result.
      fst (fetchYouTubeTranscript
             (env_ok\<lparr>fetchTranscript := (\<lambda>v. Inr (replicate 100000 ''w''))\<rparr>) w0
             ''AAAAAAAAAAA'') = Inr result \<and>
      length (split_str CHR '' '' result) = 3750 \<and>
      startsWith (joinedTranscript (replicate 100000 ''w'')) result)"
proof -
  have len: "length (split_str CHR '' '' (joinedTranscript (replicate 100000 ''w''))) = 100000"
    using words_of_replicate [of 100000] by simp
  have ans: "fetchTranscript (env_ok\<lparr>fetchTranscript := (\<lambda>v. Inr (replicate 100000 ''w''))\<rparr>)
               ''AAAAAAAAAAA'' = Inr (replicate 100000 ''w'')"
    by simp
  show ?thesis
    using len fetchYouTubeTranscript_truncates [OF ans, of w0] by blast
qed

text \<open>
  C5 as stated fails for words separated by white space in general. A transcript of
  50000 segments of two lines each has 100000 such words; the space character occurs
  only between segments, so the code keeps 3750 segments, and the result has 7500
  words, not 3750.
\<close>

lemma ws_split_nonempty: "ws_split s \<noteq> []"
  by (induction s) auto

lemma wsWords_twoLines: "wsWords twoLines = [''a'', ''b'']"
  by (simp add: wsWords_def twoLines_def isWhiteSpace_def)

lemma wsWords_twoLines_then:
  "wsWords (twoLines @ CHR '' '' # s) = ''a'' # ''b'' # wsWords s"
  by (simp add: wsWords_def twoLines_def isWhiteSpace_def)

lemma join_replicate_Suc:
  "join_str sep (replicate (Suc n) w) =
     (if n = 0 then w else w @ sep @ join_str sep (replicate n w))"
  by (cases n) auto

lemma wsWords_of_segments:
  "length (wsWords (join_str '' '' (replicate n twoLines))) = 2 * n"
proof (induction n)
  case 0
  then show ?case by (simp add: wsWords_def)
next
  case (Suc n)
  show ?case
  proof (cases "n = 0")
    case True
    then show ?thesis by (simp add: wsWords_twoLines)
  next
    case False
    then have "join_str '' '' (replicate (Suc n) twoLines) =
        twoLines @ CHR '' '' # join_str '' '' (replicate n twoLines)"
      by (simp only: join_replicate_Suc) simp
    then show ?thesis using Suc by (simp only: wsWords_twoLines_then) simp
  qed
qed

lemma joinedTranscript_segments:
  "joinedTranscript (replicate n twoLines) = join_str '' '' (replicate n twoLines)"
proof -
  have "trim twoLines = twoLines" by (simp add: trim_def isWhiteSpace_def twoLines_def)
  moreover have "twoLines \<noteq> []" by (simp add: twoLines_def)
  ultimately show ?thesis by (simp add: joinedTranscript_def)
qed

lemma split_segments:
  assumes "0 < n"
  shows "split_str CHR '' '' (join_str '' '' (replicate n twoLines)) = replicate n twoLines"
proof -
  have "replicate n twoLines \<noteq> []" using assms by simp
  moreover have "\<forall>v \<in> set (replicate n twoLines). CHR '' '' \<notin> set v"
    by (simp add: twoLines_def)
  ultimately show ?thesis
    using split_join [of "replicate n twoLines" "CHR '' ''"] by simp
qed

lemma fetchYouTubeTranscript_result:
  "fetchTranscript e videoId = Inr items \<Longrightarrow>
   fst (fetchYouTubeTranscript e w videoId) =
     Inr (join_str '' '' (take 3750 (split_str CHR '' '' (joinedTranscript items))))"
  by (simp add: fetchYouTubeTranscript_def Let_def MAX_TOKENS_def joinedTranscript_def)

theorem line_feeds_do_not_separate_words:
  "length (wsWords (joinedTranscript (replicate 50000 twoLines))) = 100000 \<and>
   fst (fetchYouTubeTranscript
          (env_ok\<lparr>fetchTranscript := (\<lambda>v. Inr (replicate 50000 twoLines))\<rparr>) w0
          ''AAAAAAAAAAA'') = Inr (join_str '' '' (replicate 3750 twoLines)) \<and>
   length (wsWords (join_str '' '' (replicate 3750 twoLines))) = 7500"
proof -
  have a: "length (wsWords (joinedTranscript (replicate 50000 twoLines))) = 100000"
    using wsWords_of_segments [of 50000] by (simp add: joinedTranscript_segments)
  have ans: "fetchTranscript (env_ok\<lparr>fetchTranscript := (\<lambda>v. Inr (replicate 50000 twoLines))\<rparr>)
               ''AAAAAAAAAAA'' = Inr (replicate 50000 twoLines)"
    by simp
  have "take 3750 (split_str CHR '' '' (joinedTranscript (replicate 50000 twoLines))) =
          replicate 3750 twoLines"
    using split_segments [of 50000] by (simp add: joinedTranscript_segments)
  then have b: "fst (fetchYouTubeTranscript
          (env_ok\<lparr>fetchTranscript := (\<lambda>v. Inr (replicate 50000 twoLines))\<rparr>) w0
          ''AAAAAAAAAAA'') = Inr (join_str '' '' (replicate 3750 twoLines))"
    using fetchYouTubeTranscript_result [OF ans, of w0] by simp
  have c: "length (wsWords (join_str '' '' (replicate 3750 twoLines))) = 7500"
    using wsWords_of_segments [of 3750] by simp
  show ?thesis using a b c by blast
qed

lemma extract_keeps_completions:
  assumes "extractTextFromFile e w file = (r, w1)"
  shows "ChatCompletion key l f t \<in> set (calls w1) \<longleftrightarrow> ChatCompletion key l f t \<in> set (calls w)"
  using assms by (auto simp: extractTextFromFile_def Let_def logCall_def split: if_splits)

lemma summarizeText_calls:
  assumes "ChatCompletion key l f t \<in> set (calls (snd (summarizeText e w text options userApiKey)))"
  shows "ChatCompletion key l f t \<in> set (calls w) \<or> t = text"
  using assms
  by (auto simp: summarizeText_def Let_def logCall_def split: sum.splits)

text \<open>
  C3, as the code has it, for file uploads. When extraction yields a text that is empty
  after trimming, \<open>summarizeFile\<close> fails with the \<open>BadRequestException\<close>
  \<open>Could not extract text from the file.\<close> and makes no further call; otherwise it
  hands the extracted text, as extracted, to \<open>summarizeText\<close>. Every completion call
  that \<open>summarizeFile\<close> adds to the record carries the extracted text, and that text is
  not empty after trimming.
\<close>

theorem summarizeFile_checks_trimmed_text:
  assumes "extractTextFromFile e w file = (Inr text, w1)"
  shows "(trim text = [] \<longrightarrow>
            summarizeFile e w file optionsDto userApiKey =
              (Inl (BadRequestException ''Could not extract text from the file.''), w1)) \<and>
         (trim text \<noteq> [] \<longrightarrow>
            summarizeFile e w file optionsDto userApiKey =
              summarizeText e w1 text (Some (getSummarizationOptions optionsDto)) userApiKey) \<and>
         (\<forall>key l f t.
            ChatCompletion key l f t
              \<in> set (calls (snd (summarizeFile e w file optionsDto userApiKey))) \<longrightarrow>
            ChatCompletion key l f t \<in> set (calls w) \<or> (t = text \<and> trim t \<noteq> []))"
proof -
  have a: "trim text = [] \<longrightarrow>
            summarizeFile e w file optionsDto userApiKey =
              (Inl (BadRequestException ''Could not extract text from the file.''), w1)"
    using assms by (simp add: summarizeFile_def)
  have b: "trim text \<noteq> [] \<longrightarrow>
            summarizeFile e w file optionsDto userApiKey =
              summarizeText e w1 text (Some (getSummarizationOptions optionsDto)) userApiKey"
    using assms by (simp add: summarizeFile_def)
  have c: "ChatCompletion key l f t \<in> set (calls w) \<or> (t = text \<and> trim t \<noteq> [])"
    if h: "ChatCompletion key l f t
              \<in> set (calls (snd (summarizeFile e w file optionsDto userApiKey)))"
    for key l f t
  proof (cases "trim text = []")
    case True
    then have "ChatCompletion key l f t \<in> set (calls w1)" using a h by simp
    then show ?thesis using extract_keeps_completions [OF assms] by simp
  next
    case False
    then have "ChatCompletion key l f t \<in> set (calls w1) \<or> t = text"
      using b h summarizeText_calls by simp
    then show ?thesis using extract_keeps_completions [OF assms] False by auto
  qed
  show ?thesis using a b c by blast
qed

theorem summarizeFile_checks_trimmed_text_witness:
  "summarizeFile env_ok w0 (upload ''blank.txt'' ''  '') None None =
     (Inl (BadRequestException ''Could not extract text from the file.''), w0) \<and>
   summarizeFile env_ok w0 (upload ''notes.txt'' '' a '') None None =
     summarizeText env_ok w0 '' a '' (Some (getSummarizationOptions None)) None"
proof -
  have blank: "extractTextFromFile env_ok w0 (upload ''blank.txt'' ''  '') = (Inr ''  '', w0)"
    by code_simp
  have plain: "extractTextFromFile env_ok w0 (upload ''notes.txt'' '' a '') = (Inr '' a '', w0)"
    by code_simp
  have t1: "trim ''  '' = []" by code_simp
  have t2: "trim '' a '' \<noteq> []" by code_simp
  have a: "summarizeFile env_ok w0 (upload ''blank.txt'' ''  '') None None =
     (Inl (BadRequestException ''Could not extract text from the file.''), w0)"
    using conjunct1 [OF summarizeFile_checks_trimmed_text [OF blank, of None None]] t1
    by simp
  have b: "summarizeFile env_ok w0 (upload ''notes.txt'' '' a '') None None =
     summarizeText env_ok w0 '' a '' (Some (getSummarizationOptions None)) None"
    using conjunct1 [OF conjunct2 [OF summarizeFile_checks_trimmed_text [OF plain, of None None]]] t2
    by simp
  show ?thesis
    using a b by (rule conjI)
qed

text \<open>
  C3 as stated fails on both kinds of request. The text file with the content \<open>" a "\<close>
  reaches the completion service untrimmed; and a video whose transcript has no segment
  gives the empty text, which \<open>summarizeYouTubeVideo\<close> passes to the completion service
  and answers with a summary instead of an error.
\<close>

lemma untrimmed_file_text:
  "summarizeFile env_ok w0 (upload ''notes.txt'' '' a '') None None =
   (Inr ''a summary'',
    \<lparr>downloads = [''other.mp3''],
     calls = [ChatCompletion ''sk-default'' (Some STANDARD) (Some NARRATIVE) '' a '']\<rparr>)"
  by code_simp

lemma empty_transcript_fetched:
  "fetchYouTubeTranscript (env_ok\<lparr>fetchTranscript := (\<lambda>v. Inr [])\<rparr>) w0 ''AAAAAAAAAAA'' =
   (Inr [], logCall (FetchTranscript ''AAAAAAAAAAA'') w0)"
  by (simp add: fetchYouTubeTranscript_def MAX_TOKENS_def)

lemma empty_transcript_summarized:
  "summarizeText (env_ok\<lparr>fetchTranscript := (\<lambda>v. Inr [])\<rparr>)
     (logCall (FetchTranscript ''AAAAAAAAAAA'') w0) [] (Some (getSummarizationOptions None)) None =
   (Inr ''a summary'',
    \<lparr>downloads = [''other.mp3''],
     calls = [FetchTranscript ''AAAAAAAAAAA'',
              ChatCompletion ''sk-default'' (Some STANDARD) (Some NARRATIVE) []]\<rparr>)"
  by code_simp

lemma short_link_is_valid: "isValidYouTubeUrl ''https://youtu.be/AAAAAAAAAAA''"
  by code_simp

lemma short_link_id: "extractVideoId ''https://youtu.be/AAAAAAAAAAA'' = Some ''AAAAAAAAAAA''"
  by code_simp

lemma empty_transcript_request:
  "summarizeYouTubeVideo (env_ok\<lparr>fetchTranscript := (\<lambda>v. Inr [])\<rparr>) w0
     \<lparr>videoUrl = ''https://youtu.be/AAAAAAAAAAA''\<rparr> None None =
   (Inr \<lparr>transcript = [], summary = ''a summary''\<rparr>,
    \<lparr>downloads = [''other.mp3''],
     calls = [FetchTranscript ''AAAAAAAAAAA'',
              ChatCompletion ''sk-default'' (Some STANDARD) (Some NARRATIVE) []]\<rparr>)"
  by (simp add: summarizeYouTubeVideo_def short_link_is_valid transcriptBranch_def short_link_id
      empty_transcript_fetched empty_transcript_summarized tryCatch_def settle_def)

theorem text_passed_untrimmed_or_empty:
  "summarizeFile env_ok w0 (upload ''notes.txt'' '' a '') None None =
   (Inr ''a summary'',
    \<lparr>downloads = [''other.mp3''],
     calls = [ChatCompletion ''sk-default'' (Some STANDARD) (Some NARRATIVE) '' a '']\<rparr>) \<and>
   trim '' a '' \<noteq> '' a '' \<and>
   summarizeYouTubeVideo (env_ok\<lparr>fetchTranscript := (\<lambda>v. Inr [])\<rparr>) w0
     \<lparr>videoUrl = ''https://youtu.be/AAAAAAAAAAA''\<rparr> None None =
   (Inr \<lparr>transcript = [], summary = ''a summary''\<rparr>,
    \<lparr>downloads = [''other.mp3''],
     calls = [FetchTranscript ''AAAAAAAAAAA'',
              ChatCompletion ''sk-default'' (Some STANDARD) (Some NARRATIVE) []]\<rparr>)"
proof -
  have "trim '' a '' \<noteq> '' a ''" by code_simp
  then show ?thesis
    using untrimmed_file_text empty_transcript_request by blast
qed

section \<open>Properties of the identifier extraction\<close>

lemma run_lit:
  "run (lit cs) s =
     (if take (length cs) (rest s) = cs
      then [s\<lparr>pos := pos s + length cs, rest := drop (length cs) (rest s)\<rparr>] else [])"
proof (induction cs arbitrary: s)
  case Nil
  then show ?case by simp
next
  case (Cons c cs)
  show ?case
  proof (cases "rest s")
    case Nil
    then show ?thesis by simp
  next
    case (Cons x xs)
    then show ?thesis using Cons.IH by (simp add: Cons.IH)
  qed
qed

lemma run_atom_Nil: "rest s = [] \<Longrightarrow> run (Atom p) s = []"
  by simp

lemma run_atom_Cons:
  "rest s = x # xs \<Longrightarrow>
   run (Atom p) s = (if p x then [s\<lparr>pos := Suc (pos s), rest := xs\<rparr>] else [])"
  by simp

lemma rep_atom:
  "rep n (run (Atom p)) s =
     (if n \<le> length (rest s) \<and> list_all p (take n (rest s))
      then [s\<lparr>pos := pos s + n, rest := drop n (rest s)\<rparr>] else [])"
proof (induction n arbitrary: s)
  case 0
  then show ?case by simp
next
  case (Suc n)
  show ?case
  proof (cases "rest s")
    case Nil
    then show ?thesis by (simp del: run.simps add: run_atom_Nil)
  next
    case (Cons x xs)
    then show ?thesis by (simp del: run.simps add: run_atom_Cons Suc)
  qed
qed

lemma run_idGroup:
  "run idGroup s =
     (if 11 \<le> length (rest s) \<and> list_all isIdChar (take 11 (rest s))
      then [s\<lparr>pos := pos s + 11, rest := drop 11 (rest s),
               caps := (1, take 11 (rest s)) # caps s\<rparr>] else [])"
proof -
  have "rep 11 (run (Atom isIdChar)) s =
     (if 11 \<le> length (rest s) \<and> list_all isIdChar (take 11 (rest s))
      then [s\<lparr>pos := pos s + 11, rest := drop 11 (rest s)\<rparr>] else [])"
    by (rule rep_atom)
  then show ?thesis
    by (simp del: run.simps(2) add: idGroup_def)
qed

lemma run_chr:
  "run (chr c) u =
     (if rest u \<noteq> [] \<and> hd (rest u) = c then [u\<lparr>pos := Suc (pos u), rest := tl (rest u)\<rparr>] else [])"
  by (cases "rest u") (simp_all add: chr_def)

lemma run_tail1:
  "run (Alt (chr CHR ''?'') (Alt (chr CHR ''&'') (Alt (chr CHR ''/'') Eol))) u =
     (if rest u = [] then [u]
      else if hd (rest u) \<in> set ''?&/'' then [u\<lparr>pos := Suc (pos u), rest := tl (rest u)\<rparr>]
      else [])"
  by (simp add: run_chr)

lemma run_tail2:
  "run (Alt (chr CHR ''?'') (Alt (chr CHR ''&'') Eol)) u =
     (if rest u = [] then [u]
      else if hd (rest u) \<in> set ''?&'' then [u\<lparr>pos := Suc (pos u), rest := tl (rest u)\<rparr>]
      else [])"
  by (simp add: run_chr)

lemma idGroup_then:
  assumes tail: "\<And>u. run tail u =
     (if rest u = [] then [u]
      else if hd (rest u) \<in> set enders then [u\<lparr>pos := Suc (pos u), rest := tl (rest u)\<rparr>]
      else [])"
  shows "idThen enders (rest s) \<Longrightarrow>
           \<exists>t. run (Seq idGroup tail) s = [t] \<and> caps t = (1, take 11 (rest s)) # caps s"
    and "\<not> idThen enders (rest s) \<Longrightarrow> run (Seq idGroup tail) s = []"
  by (auto simp: run_idGroup tail idThen_def)

lemma run_lead1:
  "run (Alt (lit ''v='') (chr CHR ''/'')) s =
     (if take 2 (rest s) = ''v='' then [s\<lparr>pos := pos s + 2, rest := drop 2 (rest s)\<rparr>]
      else if take 1 (rest s) = ''/'' then [s\<lparr>pos := Suc (pos s), rest := drop 1 (rest s)\<rparr>]
      else [])"
proof -
  have len: "length ''v='' = 2" by simp
  have l: "run (lit ''v='') s =
     (if take 2 (rest s) = ''v='' then [s\<lparr>pos := pos s + 2, rest := drop 2 (rest s)\<rparr>] else [])"
    using run_lit [of "''v=''" s] by (simp only: len)
  have c: "run (chr CHR ''/'') s =
     (if take 1 (rest s) = ''/'' then [s\<lparr>pos := Suc (pos s), rest := drop 1 (rest s)\<rparr>] else [])"
    by (cases "rest s") (simp_all add: chr_def)
  have excl: "take 2 (rest s) = ''v='' \<Longrightarrow> take 1 (rest s) \<noteq> ''/''"
    by (cases "rest s") auto
  have "run (Alt (lit ''v='') (chr CHR ''/'')) s = run (lit ''v='') s @ run (chr CHR ''/'') s"
    by (simp only: run.simps)
  then show ?thesis
    using excl by (simp del: run.simps lit.simps add: l c)
qed

lemma run_pattern1:
  shows "idAt1 (rest s) \<Longrightarrow>
           \<exists>t. run pattern1 s = [t] \<and> caps t = (1, idOf1 (rest s)) # caps s"
    and "\<not> idAt1 (rest s) \<Longrightarrow> run pattern1 s = []"
proof -
  let ?tail = "Alt (chr CHR ''?'') (Alt (chr CHR ''&'') (Alt (chr CHR ''/'') Eol))"
  let ?s2 = "s\<lparr>pos := pos s + 2, rest := drop 2 (rest s)\<rparr>"
  let ?s1 = "s\<lparr>pos := Suc (pos s), rest := drop 1 (rest s)\<rparr>"
  note body = idGroup_then [of ?tail "''?&/''", OF run_tail1]
  have unfold: "run pattern1 s =
      concat (map (run (Seq idGroup ?tail)) (run (Alt (lit ''v='') (chr CHR ''/'')) s))"
    by (simp only: pattern1_def run.simps)
  have excl: "take 2 (rest s) = ''v='' \<Longrightarrow> take 1 (rest s) \<noteq> ''/''"
    by (cases "rest s") auto
  consider (v) "take 2 (rest s) = ''v=''"
    | (slash) "take 2 (rest s) \<noteq> ''v=''" "take 1 (rest s) = ''/''"
    | (none) "take 2 (rest s) \<noteq> ''v=''" "take 1 (rest s) \<noteq> ''/''"
    by blast
  then have both:
    "(idAt1 (rest s) \<longrightarrow>
        (\<exists>t. run pattern1 s = [t] \<and> caps t = (1, idOf1 (rest s)) # caps s)) \<and>
     (\<not> idAt1 (rest s) \<longrightarrow> run pattern1 s = [])"
  proof cases
    case v
    have r: "run pattern1 s = run (Seq idGroup ?tail) ?s2"
      using v by (simp del: run.simps lit.simps add: unfold run_lead1)
    have a: "idAt1 (rest s) \<longleftrightarrow> idThen ''?&/'' (rest ?s2)"
      using v excl by (simp add: idAt1_def)
    have i: "idOf1 (rest s) = take 11 (rest ?s2)"
      using v by (simp add: idOf1_def)
    show ?thesis
      using body(1) [of ?s2] body(2) [of ?s2]
      by (simp only: r a i) (simp del: run.simps)
  next
    case slash
    have r: "run pattern1 s = run (Seq idGroup ?tail) ?s1"
      using slash by (simp del: run.simps lit.simps add: unfold run_lead1)
    have a: "idAt1 (rest s) \<longleftrightarrow> idThen ''?&/'' (rest ?s1)"
      using slash by (simp add: idAt1_def)
    have i: "idOf1 (rest s) = take 11 (rest ?s1)"
      using slash by (simp add: idOf1_def)
    show ?thesis
      using body(1) [of ?s1] body(2) [of ?s1]
      by (simp only: r a i) (simp del: run.simps)
  next
    case none
    have r: "run pattern1 s = []"
      using none by (simp del: run.simps lit.simps add: unfold run_lead1)
    have a: "\<not> idAt1 (rest s)"
      using none by (simp add: idAt1_def)
    show ?thesis
      using r a by simp
  qed
  show "idAt1 (rest s) \<Longrightarrow>
           \<exists>t. run pattern1 s = [t] \<and> caps t = (1, idOf1 (rest s)) # caps s"
    using both by blast
  show "\<not> idAt1 (rest s) \<Longrightarrow> run pattern1 s = []"
    using both by blast
qed

lemma idThen_more_enders: "idThen ''?&'' t \<Longrightarrow> idThen ''?&/'' t"
  by (auto simp: idThen_def)

lemma idAt1_Nil: "\<not> idAt1 []"
  by (simp add: idAt1_def)

lemma idAt1_slash: "idThen ''?&/'' t \<Longrightarrow> idAt1 (CHR ''/'' # t)"
  by (simp add: idAt1_def)

lemma lead_exclusive: "take 2 t = ''v='' \<Longrightarrow> take 1 t \<noteq> ''/''"
  by (cases t) auto

lemma idOf1_shape: "idAt1 t \<Longrightarrow> length (idOf1 t) = 11 \<and> list_all isIdChar (idOf1 t)"
proof (cases "take 2 t = ''v=''")
  case True
  assume "idAt1 t"
  then have "idThen ''?&/'' (drop 2 t)"
    using True lead_exclusive [OF True] by (simp add: idAt1_def)
  then show ?thesis using True by (simp add: idOf1_def idThen_def)
next
  case False
  assume "idAt1 t"
  then have "idThen ''?&/'' (drop 1 t)"
    using False by (simp add: idAt1_def)
  then show ?thesis using False by (simp add: idOf1_def idThen_def)
qed

lemma run_pattern2:
  "run pattern2 s \<noteq> [] \<Longrightarrow>
     take 9 (rest s) = ''youtu.be/'' \<and> idThen ''?&'' (drop 9 (rest s))"
proof -
  assume ne: "run pattern2 s \<noteq> []"
  let ?tail = "Alt (chr CHR ''?'') (Alt (chr CHR ''&'') Eol)"
  let ?s9 = "s\<lparr>pos := pos s + 9, rest := drop 9 (rest s)\<rparr>"
  note body = idGroup_then [of ?tail "''?&''", OF run_tail2]
  have len: "length ''youtu.be/'' = 9" by simp
  have l: "run (lit ''youtu.be/'') s =
     (if take 9 (rest s) = ''youtu.be/'' then [?s9] else [])"
    using run_lit [of "''youtu.be/''" s] by (simp only: len)
  have unfold: "run pattern2 s =
      concat (map (run (Seq idGroup ?tail)) (run (lit ''youtu.be/'') s))"
    by (simp only: pattern2_def run.simps)
  have p: "take 9 (rest s) = ''youtu.be/''"
    using ne by (simp del: run.simps lit.simps add: unfold l split: if_splits)
  then have "run pattern2 s = run (Seq idGroup ?tail) ?s9"
    by (simp del: run.simps lit.simps add: unfold l)
  then have "idThen ''?&'' (rest ?s9)"
    using ne body(2) [of ?s9] by auto
  then show ?thesis using p by simp
qed

lemma run_pattern3:
  "run pattern3 s \<noteq> [] \<Longrightarrow>
     take 8 (rest s) = ''/shorts/'' \<and> idThen ''?&'' (drop 8 (rest s))"
proof -
  assume ne: "run pattern3 s \<noteq> []"
  let ?tail = "Alt (chr CHR ''?'') (Alt (chr CHR ''&'') Eol)"
  let ?s8 = "s\<lparr>pos := pos s + 8, rest := drop 8 (rest s)\<rparr>"
  note body = idGroup_then [of ?tail "''?&''", OF run_tail2]
  have len: "length ''/shorts/'' = 8" by simp
  have l: "run (lit ''/shorts/'') s =
     (if take 8 (rest s) = ''/shorts/'' then [?s8] else [])"
    using run_lit [of "''/shorts/''" s] by (simp only: len)
  have unfold: "run pattern3 s =
      concat (map (run (Seq idGroup ?tail)) (run (lit ''/shorts/'') s))"
    by (simp only: pattern3_def run.simps)
  have p: "take 8 (rest s) = ''/shorts/''"
    using ne by (simp del: run.simps lit.simps add: unfold l split: if_splits)
  then have "run pattern3 s = run (Seq idGroup ?tail) ?s8"
    by (simp del: run.simps lit.simps add: unfold l)
  then have "idThen ''?&'' (rest ?s8)"
    using ne body(2) [of ?s8] by auto
  then show ?thesis using p by simp
qed

lemma firstId_drop: "idAt1 (drop k s) \<Longrightarrow> firstId s \<noteq> None"
proof (induction s arbitrary: k)
  case Nil
  then show ?case by (simp add: idAt1_Nil)
next
  case (Cons c cs)
  show ?case
  proof (cases k)
    case 0
    then show ?thesis using Cons.prems by simp
  next
    case (Suc j)
    then have "firstId cs \<noteq> None" using Cons by simp
    then show ?thesis by simp
  qed
qed

lemma drop_to_last_of_prefix:
  assumes "take m t = p @ [c]" "length p = n" "m = Suc n"
  shows "drop n t = c # drop m t"
proof -
  define r where "r = drop m t"
  have "t = take m t @ drop m t" by simp
  then have e: "t = p @ c # r" using assms(1) by (simp add: r_def)
  have "drop n (p @ c # r) = c # r" using assms(2) by simp
  then have "drop n t = c # r" using e by simp
  then show ?thesis by (simp add: r_def)
qed

lemma pattern2_has_id: "run pattern2 s \<noteq> [] \<Longrightarrow> idAt1 (drop 8 (rest s))"
proof -
  assume "run pattern2 s \<noteq> []"
  then have p: "take 9 (rest s) = ''youtu.be/''" and i: "idThen ''?&'' (drop 9 (rest s))"
    using run_pattern2 by blast+
  have p': "take 9 (rest s) = ''youtu.be'' @ [CHR ''/'']" using p by simp
  have "drop 8 (rest s) = CHR ''/'' # drop 9 (rest s)"
    by (rule drop_to_last_of_prefix [OF p']) simp_all
  then show ?thesis using idAt1_slash [OF idThen_more_enders [OF i]] by simp
qed


lemma pattern3_has_id: "run pattern3 s \<noteq> [] \<Longrightarrow> idAt1 (drop 7 (rest s))"
proof -
  assume "run pattern3 s \<noteq> []"
  then have p: "take 8 (rest s) = ''/shorts/''" and i: "idThen ''?&'' (drop 8 (rest s))"
    using run_pattern3 by blast+
  have p': "take 8 (rest s) = ''/shorts'' @ [CHR ''/'']" using p by simp
  have "drop 7 (rest s) = CHR ''/'' # drop 8 (rest s)"
    by (rule drop_to_last_of_prefix [OF p']) simp_all
  then show ?thesis using idAt1_slash [OF idThen_more_enders [OF i]] by simp
qed

lemma exec_from_pattern1:
  "(case exec_from pattern1 i s of None \<Rightarrow> None | Some m \<Rightarrow> group m 1) = firstId s"
proof (induction s arbitrary: i)
  case Nil
  have "run pattern1 \<lparr>pos = i, rest = [], caps = []\<rparr> = []"
    using run_pattern1(2) [of "\<lparr>pos = i, rest = [], caps = []\<rparr>"] by (simp add: idAt1_Nil)
  then show ?case by simp
next
  case (Cons c cs)
  let ?s = "\<lparr>pos = i, rest = c # cs, caps = []\<rparr>"
  show ?case
  proof (cases "idAt1 (c # cs)")
    case True
    then obtain t where t: "run pattern1 ?s = [t]" "caps t = [(1, idOf1 (c # cs))]"
      using run_pattern1(1) [of ?s] by auto
    then show ?thesis using True by (simp add: group_def)
  next
    case False
    then have "run pattern1 ?s = []"
      using run_pattern1(2) [of ?s] by simp
    then show ?thesis using False Cons [of "Suc i"] by simp
  qed
qed

lemma exec_from_subsumed:
  assumes sub: "\<And>s. run r s \<noteq> [] \<Longrightarrow> idAt1 (drop k (rest s))"
  shows "firstId s = None \<Longrightarrow> exec_from r i s = None"
proof (induction s arbitrary: i)
  case Nil
  have "run r \<lparr>pos = i, rest = [], caps = []\<rparr> = []"
    using sub [of "\<lparr>pos = i, rest = [], caps = []\<rparr>"] by (auto simp: idAt1_Nil)
  then show ?case by simp
next
  case (Cons c cs)
  have "run r \<lparr>pos = i, rest = c # cs, caps = []\<rparr> = []"
  proof (rule ccontr)
    assume "run r \<lparr>pos = i, rest = c # cs, caps = []\<rparr> \<noteq> []"
    then have "idAt1 (drop k (c # cs))"
      using sub [of "\<lparr>pos = i, rest = c # cs, caps = []\<rparr>"] by simp
    then show False using firstId_drop Cons.prems by blast
  qed
  moreover have "firstId cs = None" using Cons.prems by (simp split: if_splits)
  ultimately show ?case using Cons.IH [of "Suc i"] by simp
qed

lemma extractVideoId_pattern1:
  "extractVideoId url = (case exec pattern1 url of None \<Rightarrow> None | Some m \<Rightarrow> group m 1)"
proof (cases "exec pattern1 url")
  case None
  then have "firstId url = None"
    using exec_from_pattern1 [of 0 url] by (simp add: exec_def)
  then have "exec pattern2 url = None" "exec pattern3 url = None"
    using exec_from_subsumed [of pattern2 8, OF pattern2_has_id]
      exec_from_subsumed [of pattern3 7, OF pattern3_has_id]
    by (simp_all add: exec_def)
  then show ?thesis using None by (simp add: extractVideoId_def patterns_def)
next
  case (Some m)
  then show ?thesis by (simp add: extractVideoId_def patterns_def)
qed

lemma extractVideoId_firstId: "extractVideoId url = firstId url"
  using exec_from_pattern1 [of 0 url] by (simp add: extractVideoId_pattern1 exec_def)

lemma firstId_shape: "firstId s = Some v \<Longrightarrow> length v = 11 \<and> list_all isIdChar v"
proof (induction s)
  case Nil
  then show ?case by simp
next
  case (Cons c cs)
  then show ?case using idOf1_shape [of "c # cs"] by (auto split: if_splits)
qed

text \<open>
  C4, as the code has it. \<open>extractVideoId\<close> tries the three patterns in the order of the
  array and returns the group of the first pattern with a match, none when no pattern
  matches, and every identifier it returns has eleven characters of \<open>[\w-]\<close>. The
  first pattern accepts an identifier after \<open>v=\<close> as well as after any \<open>/\<close>, and every
  match of the second and of the third pattern contains a match of the first. So the
  result is always the first pattern's: the leftmost place of the URL where \<open>v=\<close> or
  \<open>/\<close> is followed by eleven identifier characters and then by \<open>?\<close>, \<open>&\<close>, \<open>/\<close> or the
  end (\<open>firstId\<close>).
\<close>

theorem extractVideoId_leftmost_of_first_pattern:
  "extractVideoId url = (case exec pattern1 url of None \<Rightarrow> None | Some m \<Rightarrow> group m 1) \<and>
   extractVideoId url = firstId url \<and>
   (extractVideoId url = None \<longleftrightarrow>
      exec pattern1 url = None \<and> exec pattern2 url = None \<and> exec pattern3 url = None) \<and>
   (\<forall>v. extractVideoId url = Some v \<longrightarrow> length v = 11 \<and> list_all isIdChar v)"
proof -
  have a: "extractVideoId url = (case exec pattern1 url of None \<Rightarrow> None | Some m \<Rightarrow> group m 1)"
    by (rule extractVideoId_pattern1)
  have b: "extractVideoId url = firstId url"
    by (rule extractVideoId_firstId)
  have c: "extractVideoId url = None \<longleftrightarrow>
      exec pattern1 url = None \<and> exec pattern2 url = None \<and> exec pattern3 url = None"
  proof
    assume "extractVideoId url = None"
    then have n: "firstId url = None" using b by simp
    have "exec pattern1 url = None"
    proof (cases "exec pattern1 url")
      case None
      then show ?thesis .
    next
      case (Some m)
      have "run pattern1 s \<noteq> [] \<Longrightarrow> idAt1 (drop 0 (rest s))" for s
        using run_pattern1(2) [of s] by auto
      then show ?thesis
        using exec_from_subsumed [of pattern1 0 url 0] n by (simp add: exec_def)
    qed
    moreover have "exec pattern2 url = None" "exec pattern3 url = None"
      using n exec_from_subsumed [of pattern2 8, OF pattern2_has_id]
        exec_from_subsumed [of pattern3 7, OF pattern3_has_id]
      by (simp_all add: exec_def)
    ultimately show "exec pattern1 url = None \<and> exec pattern2 url = None \<and> exec pattern3 url = None"
      by simp
  next
    assume "exec pattern1 url = None \<and> exec pattern2 url = None \<and> exec pattern3 url = None"
    then show "extractVideoId url = None" by (simp add: a)
  qed
  have d: "\<forall>v. extractVideoId url = Some v \<longrightarrow> length v = 11 \<and> list_all isIdChar v"
    using firstId_shape [of url] b by simp
  show ?thesis using a b c d by blast
qed

lemma watch_url_id:
  "extractVideoId ''https://www.youtube.com/watch?v=dQw4w9WgXcQ&t=5'' = Some ''dQw4w9WgXcQ''"
  by code_simp

theorem extractVideoId_leftmost_of_first_pattern_witness:
  "extractVideoId ''https://www.youtube.com/watch?v=dQw4w9WgXcQ&t=5'' = Some ''dQw4w9WgXcQ'' \<and>
   firstId ''https://www.youtube.com/watch?v=dQw4w9WgXcQ&t=5'' = Some ''dQw4w9WgXcQ'' \<and>
   length ''dQw4w9WgXcQ'' = 11 \<and> list_all isIdChar ''dQw4w9WgXcQ''"
proof -
  note inst = extractVideoId_leftmost_of_first_pattern
    [of "''https://www.youtube.com/watch?v=dQw4w9WgXcQ&t=5''"]
  have f: "firstId ''https://www.youtube.com/watch?v=dQw4w9WgXcQ&t=5'' = Some ''dQw4w9WgXcQ''"
    using inst watch_url_id by metis
  have s: "length ''dQw4w9WgXcQ'' = 11 \<and> list_all isIdChar ''dQw4w9WgXcQ''"
    using inst watch_url_id by blast
  show ?thesis using watch_url_id f s by blast
qed

text \<open>
  C4 as stated fails: the short link below matches the first and the second pattern and
  carries the \<open>v=\<close> identifier \<open>BBBBBBBBBBB\<close>, which the first pattern would accept where
  it stands; the identifier returned is the path segment \<open>AAAAAAAAAAA\<close>, which comes
  first.
\<close>

theorem path_identifier_returned_before_query_identifier:
  "exec pattern1 ''https://youtu.be/AAAAAAAAAAA?v=BBBBBBBBBBB'' \<noteq> None \<and>
   exec pattern2 ''https://youtu.be/AAAAAAAAAAA?v=BBBBBBBBBBB'' \<noteq> None \<and>
   drop 29 ''https://youtu.be/AAAAAAAAAAA?v=BBBBBBBBBBB'' = ''v=BBBBBBBBBBB'' \<and>
   idAt1 ''v=BBBBBBBBBBB'' \<and> idOf1 ''v=BBBBBBBBBBB'' = ''BBBBBBBBBBB'' \<and>
   extractVideoId ''https://youtu.be/AAAAAAAAAAA?v=BBBBBBBBBBB'' = Some ''AAAAAAAAAAA'' \<and>
   extractVideoId ''https://youtu.be/AAAAAAAAAAA?v=BBBBBBBBBBB'' \<noteq> Some ''BBBBBBBBBBB''"
  by code_simp

end
